theory Spec2Isabelle
  imports Main "HOL-Library.AList" "HOL-Library.Multiset"
begin

section \<open>The bidirectional generic map of package genericmap\<close>

subsection \<open>Go's built-in maps and slices\<close>

text \<open>
  A Go map is modelled as an association list whose keys are pairwise distinct. The order
  of the list stands for the order in which \<^verbatim>\<open>range\<close> visits the entries, which Go
  leaves unspecified: every order is some list, and the results below hold for all of them.
  \<^item> \<^verbatim>\<open>v, ok := m[k]\<close> is \<^term>\<open>map_of m k\<close>;
  \<^item> \<^verbatim>\<open>m[k] = v\<close> is \<^term>\<open>AList.update k v m\<close> (overwrite in place, or a new entry);
  \<^item> \<^verbatim>\<open>delete(m, k)\<close> is \<^term>\<open>AList.delete k m\<close>;
  \<^item> \<^verbatim>\<open>len(m)\<close> is \<^term>\<open>length m\<close>.
  The set type \<^verbatim>\<open>map[K]struct{}\<close> is a map into \<^typ>\<open>unit\<close>.
\<close>

type_synonym ('k, 'v) gomap = "('k \<times> 'v) list"

text \<open>
  \<^verbatim>\<open>make(map[K]V, hint)\<close>: the hint only pre-sizes the storage, and the new map has no
  entry. A map here is its entries, so the storage that the run-time system sets aside for
  a hint, and the time and memory that takes, are not part of the model: nothing below is a
  statement about hints. \<^verbatim>\<open>make(map[K]V)\<close> is the same with hint 0.
\<close>

definition make_map :: "int \<Rightarrow> ('k, 'v) gomap" where
  "make_map hint = []"

text \<open>\<^verbatim>\<open>make([]T, n)\<close>: a slice of \<open>n\<close> zero values; \<open>z\<close> is the zero value of \<open>T\<close>.\<close>

definition make_slice :: "'a \<Rightarrow> nat \<Rightarrow> 'a list" where
  "make_slice z n = replicate n z"

subsection \<open>The structure\<close>

text \<open>
  \<^verbatim>\<open>type Map[K, V] struct { data map[K]V; reverseMap map[V]map[K]struct{}; mu sync.RWMutex }\<close>.
  Every method holds the lock for its whole body, so a method is one atomic step on the pair
  of maps and the lock has no field here.
\<close>

record ('k, 'v) Map =
  data :: "('k, 'v) gomap"
  reverseMap :: "('v, ('k, unit) gomap) gomap"

text \<open>
  One pass of the body of the loop in \<^verbatim>\<open>New\<close>, which is also the tail of \<^verbatim>\<open>Set\<close>:
  \<^verbatim>\<open>m.data[k] = v; if m.reverseMap[v] == nil { m.reverseMap[v] = make(...) }; m.reverseMap[v][k] = struct{}{}\<close>.
  Buckets are only ever created by \<^verbatim>\<open>make\<close>, so a nil bucket is an absent one; the
  inner map is shared with the outer one, so the store into it is a store into \<open>reverseMap\<close>.
  After the guard the bucket is there, so the second \<open>None\<close> branch (a store into a nil map)
  is never taken.
\<close>

definition store_entry :: "'k \<Rightarrow> 'v \<Rightarrow> ('k, 'v) Map \<Rightarrow> ('k, 'v) Map" where
  "store_entry k v m =
     (let m1 = m\<lparr>data := AList.update k v (data m)\<rparr>;
          m2 = (case map_of (reverseMap m1) v of
                  None \<Rightarrow> m1\<lparr>reverseMap := AList.update v (make_map 0) (reverseMap m1)\<rparr>
                | Some _ \<Rightarrow> m1)
      in case map_of (reverseMap m2) v of
           None \<Rightarrow> m2
         | Some keyMap \<Rightarrow>
             m2\<lparr>reverseMap := AList.update v (AList.update k () keyMap) (reverseMap m2)\<rparr>)"

definition New :: "('k, 'v) gomap list \<Rightarrow> ('k, 'v) Map" where
  "New initialData =
     (let m = \<lparr>data = make_map 0, reverseMap = make_map 0\<rparr>
      in if length initialData > 0
         then foldl (\<lambda>m dataMap. foldl (\<lambda>m (k, v). store_entry k v m) m dataMap) m initialData
         else m)"

definition NewWithCapacity :: "int \<Rightarrow> ('k, 'v) Map" where
  "NewWithCapacity capacity = \<lparr>data = make_map capacity, reverseMap = make_map capacity\<rparr>"

definition removeFromReverseMap :: "'k \<Rightarrow> 'v \<Rightarrow> ('k, 'v) Map \<Rightarrow> ('k, 'v) Map" where
  "removeFromReverseMap key val m =
     (case map_of (reverseMap m) val of
        Some keyMap \<Rightarrow>
          (let keyMap' = AList.delete key keyMap;
               m' = m\<lparr>reverseMap := AList.update val keyMap' (reverseMap m)\<rparr>
           in if length keyMap' = 0
              then m'\<lparr>reverseMap := AList.delete val (reverseMap m')\<rparr>
              else m')
      | None \<Rightarrow> m)"

definition Set :: "'k \<Rightarrow> 'v \<Rightarrow> ('k, 'v) Map \<Rightarrow> ('k, 'v) Map" where
  "Set key val m =
     (case map_of (data m) key of
        Some oldValue \<Rightarrow>
          if oldValue = val then m
          else store_entry key val (removeFromReverseMap key oldValue m)
      | None \<Rightarrow> store_entry key val m)"

text \<open>\<^verbatim>\<open>val, ok := m.data[key]\<close>: the zero value \<open>z\<close> of \<open>V\<close> when the key is absent.\<close>

definition Get :: "'v \<Rightarrow> ('k, 'v) Map \<Rightarrow> 'k \<Rightarrow> 'v \<times> bool" where
  "Get z m key = (case map_of (data m) key of Some val \<Rightarrow> (val, True) | None \<Rightarrow> (z, False))"

definition GetKeys :: "('k, 'v) Map \<Rightarrow> 'v \<Rightarrow> 'k list" where
  "GetKeys m val =
     (case map_of (reverseMap m) val of
        Some keyMap \<Rightarrow> foldl (\<lambda>result (key, _). result @ [key]) [] keyMap
      | None \<Rightarrow> [])"

text \<open>
  The loops of \<^verbatim>\<open>List\<close> and \<^verbatim>\<open>Values\<close> store into a slice made beforehand, at an index
  that counts the entries; a store past the end of a slice panics (\<open>None\<close>).
\<close>

definition slice_store :: "'a list \<Rightarrow> nat \<Rightarrow> 'a \<Rightarrow> 'a list option" where
  "slice_store xs i x = (if i < length xs then Some (xs[i := x]) else None)"

fun List_loop :: "('k, 'v) gomap \<Rightarrow> 'k list \<Rightarrow> nat \<Rightarrow> 'k list option" where
  "List_loop [] keys i = Some keys"
| "List_loop ((k, v) # rest) keys i =
     (case slice_store keys i k of None \<Rightarrow> None | Some keys' \<Rightarrow> List_loop rest keys' (i + 1))"

definition List :: "'k \<Rightarrow> ('k, 'v) Map \<Rightarrow> 'k list option" where
  "List z m = List_loop (data m) (make_slice z (length (data m))) 0"

fun Values_loop :: "('k, 'v) gomap \<Rightarrow> 'v list \<Rightarrow> nat \<Rightarrow> 'v list option" where
  "Values_loop [] vals i = Some vals"
| "Values_loop ((k, v) # rest) vals i =
     (case slice_store vals i v of None \<Rightarrow> None | Some vals' \<Rightarrow> Values_loop rest vals' (i + 1))"

definition Values :: "'v \<Rightarrow> ('k, 'v) Map \<Rightarrow> 'v list option" where
  "Values z m = Values_loop (data m) (make_slice z (length (data m))) 0"

definition Remove :: "('k, 'v) Map \<Rightarrow> 'k \<Rightarrow> bool \<times> ('k, 'v) Map" where
  "Remove m key =
     (case map_of (data m) key of
        Some val \<Rightarrow> (True, removeFromReverseMap key val (m\<lparr>data := AList.delete key (data m)\<rparr>))
      | None \<Rightarrow> (False, m))"

definition Len :: "('k, 'v) Map \<Rightarrow> nat" where
  "Len m = length (data m)"

subsection \<open>Sequences of calls\<close>

datatype ('k, 'v) call = SetCall 'k 'v | RemoveCall 'k

fun do_call :: "('k, 'v) Map \<Rightarrow> ('k, 'v) call \<Rightarrow> ('k, 'v) Map" where
  "do_call m (SetCall k v) = Set k v m"
| "do_call m (RemoveCall k) = snd (Remove m k)"

definition run :: "('k, 'v) call list \<Rightarrow> ('k, 'v) Map \<Rightarrow> ('k, 'v) Map" where
  "run calls m = foldl do_call m calls"

subsection \<open>The invariants of the data model\<close>

text \<open>The representation is a pair of Go maps of Go sets: no key occurs twice in any of them.\<close>

definition wf_map :: "('k, 'v) Map \<Rightarrow> bool" where
  "wf_map m \<longleftrightarrow>
     distinct (map fst (data m)) \<and> distinct (map fst (reverseMap m)) \<and>
     list_all (\<lambda>(v, keyMap). distinct (map fst keyMap)) (reverseMap m)"

text \<open>I1: every key \<open>k\<close> of the forward map is a member of \<open>reverse[forward[k]]\<close>.\<close>

definition I1 :: "('k, 'v) Map \<Rightarrow> bool" where
  "I1 m \<longleftrightarrow>
     list_all (\<lambda>(k, v). case map_of (reverseMap m) v of
                           None \<Rightarrow> False
                         | Some keyMap \<Rightarrow> map_of keyMap k = Some ()) (data m)"

text \<open>I2: every bucket of the reverse map is non-empty.\<close>

definition I2 :: "('k, 'v) Map \<Rightarrow> bool" where
  "I2 m \<longleftrightarrow> list_all (\<lambda>(v, keyMap). length keyMap \<noteq> 0) (reverseMap m)"

text \<open>I3: every key of \<open>reverse[v]\<close> maps forward to \<open>v\<close>.\<close>

definition I3 :: "('k, 'v) Map \<Rightarrow> bool" where
  "I3 m \<longleftrightarrow>
     list_all (\<lambda>(v, keyMap). list_all (\<lambda>(k, _). map_of (data m) k = Some v) keyMap)
       (reverseMap m)"

text \<open>I4: the size of the forward map is the sum of the sizes of the buckets.\<close>

definition I4 :: "('k, 'v) Map \<Rightarrow> bool" where
  "I4 m \<longleftrightarrow> length (data m) = sum_list (map (\<lambda>(v, keyMap). length keyMap) (reverseMap m))"

definition invar :: "('k, 'v) Map \<Rightarrow> bool" where
  "invar m \<longleftrightarrow> wf_map m \<and> I1 m \<and> I2 m \<and> I3 m \<and> I4 m"

text \<open>
  The same facts read through the lookups of the two maps; this is the form the proofs
  work with (\<open>consistent_iff\<close> below shows it is the conjunction of the well-formedness
  of the representation, I1, I2 and I3).
\<close>

definition consistent :: "('k, 'v) Map \<Rightarrow> bool" where
  "consistent m \<longleftrightarrow>
     distinct (map fst (data m)) \<and> distinct (map fst (reverseMap m)) \<and>
     (\<forall>v keyMap. map_of (reverseMap m) v = Some keyMap \<longrightarrow>
        distinct (map fst keyMap) \<and> keyMap \<noteq> [] \<and>
        (\<forall>k. map_of keyMap k = Some () \<longrightarrow> map_of (data m) k = Some v)) \<and>
     (\<forall>k v. map_of (data m) k = Some v \<longrightarrow>
        (\<exists>keyMap. map_of (reverseMap m) v = Some keyMap \<and> map_of keyMap k = Some ()))"

subsection \<open>An example state\<close>

text \<open>The map of the test \<^verbatim>\<open>TestReverseLookup\<close>: \<^verbatim>\<open>Set("a", 1); Set("b", 2); Set("c", 1)\<close> on a new map.\<close>

definition example_map :: "(string, int) Map" where
  "example_map = run [SetCall ''a'' 1, SetCall ''b'' 2, SetCall ''c'' 1] (New [])"

section \<open>Proofs\<close>

subsection \<open>The effect of the helpers on the two maps\<close>

lemma list_all_alist:
  "distinct (map fst al) \<Longrightarrow> list_all P al \<longleftrightarrow> (\<forall>k v. map_of al k = Some v \<longrightarrow> P (k, v))"
  by (auto simp: list_all_iff)

lemma data_removeFromReverseMap [simp]: "data (removeFromReverseMap k v m) = data m"
  by (simp add: removeFromReverseMap_def Let_def split: option.splits)

lemma rev_removeFromReverseMap:
  "map_of (reverseMap (removeFromReverseMap k v m)) =
     (case map_of (reverseMap m) v of
        None \<Rightarrow> map_of (reverseMap m)
      | Some b \<Rightarrow> if AList.delete k b = [] then (map_of (reverseMap m))(v := None)
                  else (map_of (reverseMap m))(v \<mapsto> AList.delete k b))"
  by (simp add: removeFromReverseMap_def Let_def update_conv' delete_conv' split: option.splits)

lemma distinct_removeFromReverseMap:
  "distinct (map fst (reverseMap m)) \<Longrightarrow> distinct (map fst (reverseMap (removeFromReverseMap k v m)))"
  by (simp add: removeFromReverseMap_def Let_def distinct_update distinct_delete split: option.splits)

lemma data_store_entry: "data (store_entry k v m) = AList.update k v (data m)"
  by (simp add: store_entry_def Let_def update_conv' split: option.splits)

lemma rev_store_entry:
  "map_of (reverseMap (store_entry k v m)) =
     (map_of (reverseMap m))(v \<mapsto> AList.update k () (case map_of (reverseMap m) v of None \<Rightarrow> [] | Some b \<Rightarrow> b))"
  by (simp add: store_entry_def Let_def update_conv' make_map_def split: option.splits)

lemma distinct_store_entry:
  "distinct (map fst (reverseMap m)) \<Longrightarrow> distinct (map fst (reverseMap (store_entry k v m)))"
  by (simp add: store_entry_def Let_def distinct_update split: option.splits)

lemma I1_iff:
  "distinct (map fst (data m)) \<Longrightarrow>
   I1 m \<longleftrightarrow> (\<forall>k v. map_of (data m) k = Some v \<longrightarrow>
            (\<exists>keyMap. map_of (reverseMap m) v = Some keyMap \<and> map_of keyMap k = Some ()))"
  unfolding I1_def
  apply (simp add: list_all_alist split: option.split del: map_of_eq_Some_iff)
  apply (metis option.distinct(1) option.inject not_Some_eq)
  done

lemma I2_iff:
  "distinct (map fst (reverseMap m)) \<Longrightarrow>
   I2 m \<longleftrightarrow> (\<forall>v keyMap. map_of (reverseMap m) v = Some keyMap \<longrightarrow> keyMap \<noteq> [])"
  unfolding I2_def by (simp add: list_all_alist del: map_of_eq_Some_iff)

lemma wf_buckets_iff:
  "distinct (map fst (reverseMap m)) \<Longrightarrow>
   list_all (\<lambda>(v, keyMap). distinct (map fst keyMap)) (reverseMap m) \<longleftrightarrow>
   (\<forall>v keyMap. map_of (reverseMap m) v = Some keyMap \<longrightarrow> distinct (map fst keyMap))"
  by (simp add: list_all_alist del: map_of_eq_Some_iff)

lemma bucket_all_iff:
  "distinct (map fst b) \<Longrightarrow>
   list_all (\<lambda>(k, u). P k) b \<longleftrightarrow> (\<forall>k. map_of b k = Some () \<longrightarrow> P k)"
  by (auto simp: list_all_iff)

lemma I3_iff:
  assumes "distinct (map fst (reverseMap m))"
    and "\<forall>v keyMap. map_of (reverseMap m) v = Some keyMap \<longrightarrow> distinct (map fst keyMap)"
  shows "I3 m \<longleftrightarrow> (\<forall>v keyMap. map_of (reverseMap m) v = Some keyMap \<longrightarrow>
            (\<forall>k. map_of keyMap k = Some () \<longrightarrow> map_of (data m) k = Some v))"
  unfolding I3_def list_all_alist[OF assms(1)]
  using assms(2) by (auto simp: bucket_all_iff simp del: map_of_eq_Some_iff)

lemma consistent_iff: "consistent m \<longleftrightarrow> wf_map m \<and> I1 m \<and> I2 m \<and> I3 m"
proof (cases "distinct (map fst (data m)) \<and> distinct (map fst (reverseMap m))")
  case False
  then show ?thesis by (auto simp: consistent_def wf_map_def)
next
  case True
  then have d: "distinct (map fst (data m))" and r: "distinct (map fst (reverseMap m))"
    by simp_all
  show ?thesis
  proof (cases "\<forall>v keyMap. map_of (reverseMap m) v = Some keyMap \<longrightarrow> distinct (map fst keyMap)")
    case False
    then show ?thesis
      unfolding consistent_def wf_map_def wf_buckets_iff[OF r] by blast
  next
    case w: True
    show ?thesis
      unfolding consistent_def wf_map_def wf_buckets_iff[OF r] I1_iff[OF d] I2_iff[OF r]
        I3_iff[OF r w]
      using d r w by blast
  qed
qed

lemma consistent_store_entry:
  assumes "consistent m" "map_of (data m) k = None"
  shows "consistent (store_entry k v m)"
  using assms unfolding consistent_def
  apply (simp add: data_store_entry rev_store_entry distinct_store_entry distinct_update update_conv' del: map_of_eq_Some_iff)
  apply (auto simp: distinct_update update_conv' simp del: map_of_eq_Some_iff split: option.splits if_splits)
   apply (metis option.distinct(1))
  apply (metis option.inject)
  done


lemma map_of_delete_unit:
  "map_of (AList.delete k b) k' = Some () \<longleftrightarrow> k' \<noteq> k \<and> map_of b k' = Some ()"
  by (simp add: delete_conv')

lemma delete_eq_Nil_unit:
  "AList.delete k b = [] \<Longrightarrow> map_of b k' = Some () \<Longrightarrow> k' = k"
  by (metis map_of_delete_unit map_of.simps(1) option.distinct(1))

lemma Remove_absent: "map_of (data m) k = None \<Longrightarrow> Remove m k = (False, m)"
  by (simp add: Remove_def)

lemma Remove_present:
  "map_of (data m) k = Some v \<Longrightarrow>
   Remove m k = (True, removeFromReverseMap k v (m\<lparr>data := AList.delete k (data m)\<rparr>))"
  by (simp add: Remove_def)

lemma consistentI:
  assumes "distinct (map fst (data m))" "distinct (map fst (reverseMap m))"
    and "\<And>v b. map_of (reverseMap m) v = Some b \<Longrightarrow> distinct (map fst b)"
    and "\<And>v b. map_of (reverseMap m) v = Some b \<Longrightarrow> b \<noteq> []"
    and "\<And>v b k. map_of (reverseMap m) v = Some b \<Longrightarrow> map_of b k = Some () \<Longrightarrow>
           map_of (data m) k = Some v"
    and "\<And>k v. map_of (data m) k = Some v \<Longrightarrow>
           \<exists>b. map_of (reverseMap m) v = Some b \<and> map_of b k = Some ()"
  shows "consistent m"
  unfolding consistent_def using assms by blast

lemma consistentD:
  assumes "consistent m"
  shows "distinct (map fst (data m))" "distinct (map fst (reverseMap m))"
    and "\<And>v b. map_of (reverseMap m) v = Some b \<Longrightarrow> distinct (map fst b)"
    and "\<And>v b. map_of (reverseMap m) v = Some b \<Longrightarrow> b \<noteq> []"
    and "\<And>v b k. map_of (reverseMap m) v = Some b \<Longrightarrow> map_of b k = Some () \<Longrightarrow>
           map_of (data m) k = Some v"
    and "\<And>k v. map_of (data m) k = Some v \<Longrightarrow>
           \<exists>b. map_of (reverseMap m) v = Some b \<and> map_of b k = Some ()"
  using assms unfolding consistent_def by blast+

lemma consistent_Remove:
  assumes "consistent m"
  shows "consistent (snd (Remove m k))"
proof (cases "map_of (data m) k")
  case None
  with assms show ?thesis by (simp add: Remove_absent)
next
  case (Some v)
  note c = consistentD[OF assms]
  from c(6)[OF Some] obtain b where b: "map_of (reverseMap m) v = Some b" "map_of b k = Some ()"
    by blast
  let ?m' = "removeFromReverseMap k v (m\<lparr>data := AList.delete k (data m)\<rparr>)"
  have d: "data ?m' = AList.delete k (data m)" by simp
  have r: "map_of (reverseMap ?m') =
      (if AList.delete k b = [] then (map_of (reverseMap m))(v := None)
       else (map_of (reverseMap m))(v \<mapsto> AList.delete k b))"
    by (simp add: rev_removeFromReverseMap b)
  have "consistent ?m'"
  proof (rule consistentI)
    show "distinct (map fst (data ?m'))" using c(1) by (simp add: distinct_delete)
    show "distinct (map fst (reverseMap ?m'))"
      using c(2) by (intro distinct_removeFromReverseMap) simp
  next
    fix v' b' assume "map_of (reverseMap ?m') v' = Some b'"
    then show "distinct (map fst b')"
      using c(3) b(1) by (auto simp: r distinct_delete split: if_splits)
  next
    fix v' b' assume "map_of (reverseMap ?m') v' = Some b'"
    then show "b' \<noteq> []"
      using c(4) by (auto simp: r split: if_splits)
  next
    fix v' b' k' assume "map_of (reverseMap ?m') v' = Some b'" "map_of b' k' = Some ()"
    then have "k' \<noteq> k \<and> map_of (data m) k' = Some v'"
      using c(5) b(1) Some by (auto simp: r map_of_delete_unit split: if_splits)
    then show "map_of (data ?m') k' = Some v'" by (simp add: delete_conv')
  next
    fix k' v' assume "map_of (data ?m') k' = Some v'"
    then have k': "k' \<noteq> k" "map_of (data m) k' = Some v'"
      by (auto simp: delete_conv' split: if_splits)
    from c(6)[OF k'(2)] obtain b' where b': "map_of (reverseMap m) v' = Some b'"
      "map_of b' k' = Some ()" by blast
    show "\<exists>b. map_of (reverseMap ?m') v' = Some b \<and> map_of b k' = Some ()"
      using b b' k'(1) by (auto simp: r map_of_delete_unit dest: delete_eq_Nil_unit)
  qed
  then show ?thesis by (simp add: Remove_present[OF Some])
qed

lemma consistent_data_cong:
  assumes "consistent m" "distinct (map fst d)" "map_of d = map_of (data m)"
  shows "consistent (m\<lparr>data := d\<rparr>)"
  using assms unfolding consistent_def by (simp del: map_of_eq_Some_iff)

lemma store_entry_data_update:
  "store_entry k v (m\<lparr>data := d\<rparr>) = (store_entry k v m)\<lparr>data := AList.update k v d\<rparr>"
  by (simp add: store_entry_def Let_def split: option.splits)

lemma removeFromReverseMap_data_update:
  "removeFromReverseMap k v (m\<lparr>data := d\<rparr>) = (removeFromReverseMap k v m)\<lparr>data := d\<rparr>"
  by (simp add: removeFromReverseMap_def Let_def split: option.splits)

lemma consistent_Set:
  assumes "consistent m"
  shows "consistent (Set k v m)"
proof (cases "map_of (data m) k")
  case None
  with assms show ?thesis by (simp add: Set_def consistent_store_entry)
next
  case (Some old)
  show ?thesis
  proof (cases "old = v")
    case True
    with Some assms show ?thesis by (simp add: Set_def)
  next
    case False
    let ?r = "removeFromReverseMap k old (m\<lparr>data := AList.delete k (data m)\<rparr>)"
    have "consistent ?r"
      using consistent_Remove[OF assms, of k] by (simp add: Remove_present[OF Some])
    moreover have "map_of (data ?r) k = None" by (simp add: delete_conv')
    ultimately have "consistent (store_entry k v ?r)" by (rule consistent_store_entry)
    moreover have "distinct (map fst (AList.update k v (data m)))"
      using consistentD(1)[OF assms] by (simp add: distinct_update)
    moreover have "map_of (AList.update k v (data m)) = map_of (data (store_entry k v ?r))"
      by (simp add: data_store_entry update_conv' delete_conv')
    ultimately have "consistent ((store_entry k v ?r)\<lparr>data := AList.update k v (data m)\<rparr>)"
      by (intro consistent_data_cong) simp_all
    moreover have "(store_entry k v ?r)\<lparr>data := AList.update k v (data m)\<rparr> =
        store_entry k v (removeFromReverseMap k old m)"
      by (simp add: store_entry_def removeFromReverseMap_def Let_def split: option.splits)
    ultimately show ?thesis using Some False by (simp add: Set_def)
  qed
qed


lemma sum_bucket_lengths:
  assumes "distinct (map fst r)"
    and "\<forall>(v, b) \<in> set r. distinct (map fst b) \<and> (\<forall>k \<in> fst ` set b. f k = Some v)"
  shows "sum_list (map (\<lambda>(v, b). length b) r) = card (\<Union>(v, b) \<in> set r. fst ` set b)"
  using assms
proof (induction r)
  case Nil
  then show ?case by simp
next
  case (Cons p r)
  obtain v b where p: "p = (v, b)" by (cases p)
  let ?rest = "\<Union>(v, b) \<in> set r. fst ` set b"
  have len: "length b = card (fst ` set b)"
    using Cons.prems(2) distinct_card[of "map fst b"] by (simp add: p)
  have disj: "fst ` set b \<inter> ?rest = {}"
  proof (rule ccontr)
    assume "fst ` set b \<inter> ?rest \<noteq> {}"
    then obtain k v' b' where k: "k \<in> fst ` set b" "(v', b') \<in> set r" "k \<in> fst ` set b'"
      by auto
    have "f k = Some v" using Cons.prems(2) k(1) by (auto simp: p)
    moreover have "f k = Some v'" using Cons.prems(2) k(2,3) by auto
    moreover have "v' \<noteq> v" using Cons.prems(1) k(2) by (force simp: p)
    ultimately show False by simp
  qed
  have fin: "finite ?rest" by auto
  have IH: "sum_list (map (\<lambda>(v, b). length b) r) = card ?rest"
    using Cons.prems by (intro Cons.IH) simp_all
  have "card (fst ` set b \<union> ?rest) = card (fst ` set b) + card ?rest"
    using disj fin by (intro card_Un_disjoint) auto
  then show ?case by (simp add: p len IH)
qed

lemma consistent_I4:
  assumes "consistent m"
  shows "I4 m"
proof -
  note c = consistentD[OF assms]
  have "sum_list (map (\<lambda>(v, b). length b) (reverseMap m)) =
      card (\<Union>(v, b) \<in> set (reverseMap m). fst ` set b)"
  proof (rule sum_bucket_lengths[where f = "map_of (data m)"])
    show "distinct (map fst (reverseMap m))" by (rule c(2))
    show "\<forall>(v, b) \<in> set (reverseMap m).
        distinct (map fst b) \<and> (\<forall>k \<in> fst ` set b. map_of (data m) k = Some v)"
    proof (intro ballI, clarify, intro conjI ballI)
      fix v b assume "(v, b) \<in> set (reverseMap m)"
      then have vb: "map_of (reverseMap m) v = Some b" using c(2) by simp
      then show "distinct (map fst b)" by (rule c(3))
      fix k assume "k \<in> fst ` set b"
      then have "map_of b k = Some ()"
        by (metis (full_types) domIff dom_map_of_conv_image_fst not_None_eq old.unit.exhaust)
      with vb show "map_of (data m) k = Some v" by (rule c(5))
    qed
  qed
  also have "(\<Union>(v, b) \<in> set (reverseMap m). fst ` set b) = fst ` set (data m)"
  proof (intro set_eqI iffI)
    fix k assume "k \<in> (\<Union>(v, b) \<in> set (reverseMap m). fst ` set b)"
    then obtain v b where vb: "(v, b) \<in> set (reverseMap m)" and k: "k \<in> fst ` set b" by auto
    from vb have "map_of (reverseMap m) v = Some b" using c(2) by simp
    moreover from k have "map_of b k = Some ()"
      by (metis (full_types) domIff dom_map_of_conv_image_fst not_None_eq old.unit.exhaust)
    ultimately have "map_of (data m) k = Some v" by (rule c(5))
    then show "k \<in> fst ` set (data m)" by (metis domI dom_map_of_conv_image_fst)
  next
    fix k assume "k \<in> fst ` set (data m)"
    then obtain v where "map_of (data m) k = Some v"
      by (metis domD dom_map_of_conv_image_fst)
    from c(6)[OF this] obtain b where b: "map_of (reverseMap m) v = Some b"
      "map_of b k = Some ()" by blast
    from b(1) have "(v, b) \<in> set (reverseMap m)" by (rule map_of_SomeD)
    moreover from b(2) have "k \<in> fst ` set b" by (metis domI dom_map_of_conv_image_fst)
    ultimately show "k \<in> (\<Union>(v, b) \<in> set (reverseMap m). fst ` set b)" by auto
  qed
  also have "card (fst ` set (data m)) = length (data m)"
    using distinct_card[OF c(1)] by simp
  finally show ?thesis by (simp add: I4_def)
qed

lemma invar_iff_consistent: "invar m \<longleftrightarrow> consistent m"
  using consistent_I4[of m] by (auto simp: invar_def consistent_iff)

lemma consistent_empty: "consistent \<lparr>data = [], reverseMap = []\<rparr>"
  by (simp add: consistent_def)

lemma consistent_do_call: "consistent m \<Longrightarrow> consistent (do_call m c)"
  by (cases c) (simp_all add: consistent_Set consistent_Remove)

lemma consistent_run: "consistent m \<Longrightarrow> consistent (run calls m)"
  unfolding run_def by (induction calls arbitrary: m) (simp_all add: consistent_do_call)

subsection \<open>Reading the results, the frame of a call, and the constructor\<close>

lemma GetKeys_loop: "foldl (\<lambda>result (key, u). result @ [key]) acc b = acc @ map fst b"
  by (induction b arbitrary: acc) (auto split: prod.splits)

lemma GetKeys_eq:
  "GetKeys m v = (case map_of (reverseMap m) v of Some keyMap \<Rightarrow> map fst keyMap | None \<Rightarrow> [])"
  by (simp add: GetKeys_def GetKeys_loop split: option.splits)

lemma in_bucket_iff: "k \<in> fst ` set b \<longleftrightarrow> map_of b k = Some ()" for b :: "('k \<times> unit) list"
  by (metis (full_types) domIff dom_map_of_conv_image_fst not_None_eq old.unit.exhaust)

lemma GetKeys_set:
  assumes "consistent m"
  shows "set (GetKeys m v) = {k. map_of (data m) k = Some v}"
proof (cases "map_of (reverseMap m) v")
  case None
  then have "map_of (data m) k \<noteq> Some v" for k
    using consistentD(6)[OF assms, of k v] by auto
  with None show ?thesis by (simp add: GetKeys_eq)
next
  case (Some b)
  have "set (map fst b) = {k. map_of (data m) k = Some v}"
  proof (intro set_eqI iffI)
    fix k assume "k \<in> set (map fst b)"
    then have "map_of b k = Some ()" by (simp add: in_bucket_iff)
    with Some have "map_of (data m) k = Some v" by (rule consistentD(5)[OF assms])
    then show "k \<in> {k. map_of (data m) k = Some v}" by simp
  next
    fix k assume "k \<in> {k. map_of (data m) k = Some v}"
    then have "map_of (data m) k = Some v" by simp
    from consistentD(6)[OF assms this] Some have "map_of b k = Some ()" by auto
    then show "k \<in> set (map fst b)" by (simp add: in_bucket_iff)
  qed
  with Some show ?thesis by (simp add: GetKeys_eq)
qed

lemma GetKeys_distinct:
  assumes "consistent m"
  shows "distinct (GetKeys m v)"
  using consistentD(3)[OF assms, of v] by (simp add: GetKeys_eq split: option.splits)

lemma example_map_eq:
  "example_map = \<lparr>data = [(''a'', 1), (''b'', 2), (''c'', 1)],
     reverseMap = [(1, [(''a'', ()), (''c'', ())]), (2, [(''b'', ())])]\<rparr>"
  by (simp add: example_map_def run_def Set_def store_entry_def New_def make_map_def)

lemma invar_example_map: "invar example_map"
  by (simp add: example_map_eq invar_def wf_map_def I1_def I2_def I3_def I4_def)

lemma GetKeys_removeFromReverseMap:
  "GetKeys (removeFromReverseMap k v m) v = removeAll k (GetKeys m v)"
  by (auto simp: GetKeys_eq rev_removeFromReverseMap delete_keys[symmetric] split: option.splits)

lemma GetKeys_data_update [simp]: "GetKeys (m\<lparr>data := d\<rparr>) v = GetKeys m v"
  by (simp add: GetKeys_eq)

lemma reverseMap_keys_removeFromReverseMap:
  "GetKeys (removeFromReverseMap k v m) v = [] \<Longrightarrow>
   v \<notin> fst ` set (reverseMap (removeFromReverseMap k v m))"
  unfolding map_of_eq_None_iff[symmetric]
  by (auto simp: GetKeys_eq rev_removeFromReverseMap split: option.splits if_splits)

lemma length_update:
  "length (AList.update k v al) = (if k \<in> fst ` set al then length al else Suc (length al))"
  by (induction al) auto

lemma Len_Set:
  "Len (Set k v m) = (if k \<in> fst ` set (data m) then Len m else Len m + 1)"
proof (cases "map_of (data m) k")
  case None
  then have "k \<notin> fst ` set (data m)" by (simp add: map_of_eq_None_iff)
  with None show ?thesis by (simp add: Len_def Set_def data_store_entry length_update)
next
  case (Some old)
  then have "k \<in> fst ` set (data m)" by (metis domI dom_map_of_conv_image_fst)
  with Some show ?thesis by (simp add: Len_def Set_def data_store_entry length_update)
qed

lemma GetKeys_store_entry:
  "set (GetKeys (store_entry k v m) v') =
     (if v' = v then insert k (set (GetKeys m v')) else set (GetKeys m v'))"
  by (auto simp: GetKeys_eq rev_store_entry dom_update split: option.splits)

lemma GetKeys_removeFromReverseMap_set:
  "set (GetKeys (removeFromReverseMap k v m) v') =
     (if v' = v then set (GetKeys m v') - {k} else set (GetKeys m v'))"
proof (cases "v' = v")
  case True
  then show ?thesis by (simp add: GetKeys_removeFromReverseMap)
next
  case False
  then show ?thesis
    by (simp add: GetKeys_eq rev_removeFromReverseMap split: option.splits)
qed

lemma GetKeys_Set:
  "set (GetKeys (Set k v m) v') =
     (case map_of (data m) k of
        None \<Rightarrow> (if v' = v then insert k (set (GetKeys m v')) else set (GetKeys m v'))
      | Some old \<Rightarrow>
          if old = v then set (GetKeys m v')
          else if v' = v then insert k (set (GetKeys m v'))
          else if v' = old then set (GetKeys m v') - {k}
          else set (GetKeys m v'))"
  by (auto simp: Set_def GetKeys_store_entry GetKeys_removeFromReverseMap_set split: option.splits)

lemma take_Suc_update: "i < length xs \<Longrightarrow> take (Suc i) (xs[i := x]) = take i xs @ [x]"
  by (simp add: take_Suc_conv_app_nth)

lemma Values_loop_eq:
  "i + length rest = length vals \<Longrightarrow>
   Values_loop rest vals i = Some (take i vals @ map snd rest)"
proof (induction rest arbitrary: vals i)
  case Nil
  then show ?case by simp
next
  case (Cons p rest)
  obtain k v where p: "p = (k, v)" by (cases p)
  from Cons.prems have i: "i < length vals" by simp
  have "Values_loop rest (vals[i := v]) (Suc i) =
      Some (take (Suc i) (vals[i := v]) @ map snd rest)"
    using Cons.prems by (intro Cons.IH) simp
  with i show ?case by (simp add: p slice_store_def take_Suc_update)
qed

lemma List_loop_eq:
  "i + length rest = length keys \<Longrightarrow>
   List_loop rest keys i = Some (take i keys @ map fst rest)"
proof (induction rest arbitrary: keys i)
  case Nil
  then show ?case by simp
next
  case (Cons p rest)
  obtain k v where p: "p = (k, v)" by (cases p)
  from Cons.prems have i: "i < length keys" by simp
  have "List_loop rest (keys[i := k]) (Suc i) =
      Some (take (Suc i) (keys[i := k]) @ map fst rest)"
    using Cons.prems by (intro Cons.IH) simp
  with i show ?case by (simp add: p slice_store_def take_Suc_update)
qed

lemma Values_eq: "Values z m = Some (map snd (data m))"
  by (simp add: Values_def make_slice_def Values_loop_eq)

lemma List_eq: "List z m = Some (map fst (data m))"
  by (simp add: List_def make_slice_def List_loop_eq)

lemma map_snd_lookup:
  "distinct (map fst al) \<Longrightarrow> map snd al = map (\<lambda>k. the (map_of al k)) (map fst al)"
proof (induction al)
  case Nil
  then show ?case by simp
next
  case (Cons p al)
  obtain a b where p: "p = (a, b)" by (cases p)
  from Cons.prems have a: "a \<notin> set (map fst al)" and d: "distinct (map fst al)"
    by (simp_all add: p)
  have "map (\<lambda>k. the (map_of (p # al) k)) (map fst al) =
      map (\<lambda>k. the (map_of al k)) (map fst al)"
    using a by (intro map_cong) (auto simp: p)
  with Cons.IH[OF d] show ?case by (simp add: p)
qed

lemma New_eq_foldl:
  "New ms = foldl (\<lambda>m (k, v). store_entry k v m) \<lparr>data = [], reverseMap = []\<rparr> (concat ms)"
proof -
  have "foldl (\<lambda>m dataMap. foldl (\<lambda>m (k, v). store_entry k v m) m dataMap) m0 ms =
      foldl (\<lambda>m (k, v). store_entry k v m) m0 (concat ms)" for m0 :: "('a, 'b) Map"
    by (induction ms arbitrary: m0) simp_all
  then show ?thesis by (cases ms) (simp_all add: New_def make_map_def)
qed

lemma data_foldl_store_entry:
  "map_of (data (foldl (\<lambda>m (k, v). store_entry k v m) m xs)) = map_of (data m) ++ map_of (rev xs)"
proof (induction xs arbitrary: m)
  case Nil
  then show ?case by simp
next
  case (Cons p xs)
  obtain k v where p: "p = (k, v)" by (cases p)
  have "map_of (data (foldl (\<lambda>m (k, v). store_entry k v m) (store_entry k v m) xs)) =
      map_of (data (store_entry k v m)) ++ map_of (rev xs)"
    by (rule Cons.IH)
  also have "\<dots> = map_of (data m) ++ map_of (rev (p # xs))"
    by (rule ext) (simp add: p data_store_entry update_conv' map_add_def split: option.splits)
  finally show ?case by (simp add: p)
qed

lemma New_last_write_wins: "map_of (data (New ms)) = map_of (rev (concat ms))"
  by (simp add: New_eq_foldl data_foldl_store_entry)

lemma consistent_foldl_store_entry:
  "consistent m \<Longrightarrow> distinct (map fst xs) \<Longrightarrow> fst ` set xs \<inter> fst ` set (data m) = {} \<Longrightarrow>
   consistent (foldl (\<lambda>m (k, v). store_entry k v m) m xs)"
proof (induction xs arbitrary: m)
  case Nil
  then show ?case by simp
next
  case (Cons p xs)
  obtain k v where p: "p = (k, v)" by (cases p)
  from Cons.prems(3) have "k \<notin> fst ` set (data m)" by (auto simp: p)
  then have "map_of (data m) k = None" by (simp add: map_of_eq_None_iff)
  with Cons.prems(1) have "consistent (store_entry k v m)" by (rule consistent_store_entry)
  moreover have "distinct (map fst xs)" using Cons.prems(2) by simp
  moreover have "fst ` set xs \<inter> fst ` set (data (store_entry k v m)) = {}"
    using Cons.prems(2,3) by (auto simp: p data_store_entry dom_update)
  ultimately show ?case by (simp add: p Cons.IH)
qed

lemma invar_New_disjoint: "distinct (map fst (concat ms)) \<Longrightarrow> invar (New ms)"
  unfolding invar_iff_consistent New_eq_foldl
  by (rule consistent_foldl_store_entry) (simp_all add: consistent_empty)

lemma wf_map_iff:
  "wf_map m \<longleftrightarrow>
     distinct (map fst (data m)) \<and> distinct (map fst (reverseMap m)) \<and>
     (\<forall>v b. map_of (reverseMap m) v = Some b \<longrightarrow> distinct (map fst b))"
  unfolding wf_map_def using wf_buckets_iff[of m] by blast

lemma wf_map_store_entry: "wf_map m \<Longrightarrow> wf_map (store_entry k v m)"
  unfolding wf_map_iff
  by (auto simp: data_store_entry rev_store_entry distinct_store_entry distinct_update
      simp del: map_of_eq_Some_iff split: option.splits if_splits)

lemma wf_map_removeFromReverseMap: "wf_map m \<Longrightarrow> wf_map (removeFromReverseMap k v m)"
  unfolding wf_map_iff
  by (auto simp: rev_removeFromReverseMap distinct_removeFromReverseMap distinct_delete
      simp del: map_of_eq_Some_iff split: option.splits if_splits)

lemma wf_map_data_update: "wf_map m \<Longrightarrow> distinct (map fst d) \<Longrightarrow> wf_map (m\<lparr>data := d\<rparr>)"
  by (simp add: wf_map_def)

lemma wf_map_Set: "wf_map m \<Longrightarrow> wf_map (Set k v m)"
  by (simp add: Set_def wf_map_store_entry wf_map_removeFromReverseMap split: option.splits)

lemma wf_map_Remove: "wf_map (snd (Remove m k))" if "wf_map m"
proof (cases "map_of (data m) k")
  case None
  then show ?thesis using that by (simp add: Remove_absent)
next
  case (Some v)
  have "distinct (map fst (AList.delete k (data m)))"
    using that by (simp add: wf_map_def distinct_delete)
  with that have "wf_map (m\<lparr>data := AList.delete k (data m)\<rparr>)" by (rule wf_map_data_update)
  then show ?thesis by (simp add: Remove_present[OF Some] wf_map_removeFromReverseMap)
qed

lemma wf_map_New: "wf_map (New ms)"
proof -
  have "wf_map m \<Longrightarrow> wf_map (foldl (\<lambda>m (k, v). store_entry k v m) m xs)"
    for m :: "('a, 'b) Map" and xs
    by (induction xs arbitrary: m) (auto simp: wf_map_store_entry)
  moreover have "wf_map \<lparr>data = [], reverseMap = []\<rparr>" by (simp add: wf_map_def)
  ultimately show ?thesis unfolding New_eq_foldl by blast
qed

lemma wf_map_reachable: "wf_map (run calls (New ms))"
proof -
  have "wf_map m \<Longrightarrow> wf_map (run calls m)" for m :: "('a, 'b) Map"
    unfolding run_def
  proof (induction calls arbitrary: m)
    case Nil
    then show ?case by simp
  next
    case (Cons c calls)
    have "wf_map (do_call m c)" using Cons.prems by (cases c) (simp_all add: wf_map_Set wf_map_Remove)
    then show ?case by (simp add: Cons.IH)
  qed
  then show ?thesis using wf_map_New by blast
qed

lemma reverseMap_keys_store_entry:
  "fst ` set (reverseMap (store_entry k v m)) = insert v (fst ` set (reverseMap m))"
proof -
  have "dom (map_of (reverseMap (store_entry k v m))) = insert v (dom (map_of (reverseMap m)))"
    by (simp add: rev_store_entry)
  then show ?thesis by (simp add: dom_map_of_conv_image_fst)
qed

lemma GetKeys_store_entry_other:
  "v' \<noteq> v \<Longrightarrow> GetKeys (store_entry k v m) v' = GetKeys m v'"
  by (simp add: GetKeys_eq rev_store_entry)

lemma overwrite_prunes:
  assumes "map_of (data m) k = Some v1" "v1 \<noteq> v2"
  shows "GetKeys (Set k v2 m) v1 = [] \<longrightarrow> v1 \<notin> fst ` set (reverseMap (Set k v2 m))"
  using assms reverseMap_keys_removeFromReverseMap[of k v1 m]
  by (simp add: Set_def GetKeys_store_entry_other reverseMap_keys_store_entry)

lemma GetKeys_invar:
  assumes "invar m"
  shows "distinct (GetKeys m v) \<and> set (GetKeys m v) = {k. map_of (data m) k = Some v}"
proof -
  from assms have "consistent m" by (simp add: invar_iff_consistent)
  then show ?thesis by (simp add: GetKeys_set GetKeys_distinct)
qed

lemma GetKeys_after_calls:
  assumes "distinct (map fst (concat ms))"
  shows "distinct (GetKeys (run calls (New ms)) v) \<and>
         set (GetKeys (run calls (New ms)) v) =
           {k. map_of (data (run calls (New ms))) k = Some v}"
proof -
  from assms have "consistent (New ms)"
    using invar_New_disjoint[of ms] by (simp add: invar_iff_consistent)
  then have "consistent (run calls (New ms))" by (rule consistent_run)
  then show ?thesis by (simp add: GetKeys_set GetKeys_distinct)
qed

section \<open>The claims\<close>

text \<open>
  C1. Starting from the empty map, after every finite sequence of \<open>Set\<close> and \<open>Remove\<close>
  calls the two maps are well-formed Go maps and the invariants hold: I1, every key of the
  forward map is in the bucket of its value; I2, no bucket is empty; I3, every key of a
  bucket maps forward to that bucket's value; I4, the forward map has as many entries as all
  buckets together.
\<close>

theorem invariants_after_calls:
  "wf_map (run calls (New [])) \<and> I1 (run calls (New [])) \<and> I2 (run calls (New [])) \<and>
   I3 (run calls (New [])) \<and> I4 (run calls (New []))"
proof -
  have "consistent (New [])" by (simp add: New_def make_map_def consistent_empty)
  then have "invar (run calls (New []))"
    unfolding invar_iff_consistent by (rule consistent_run)
  then show ?thesis by (simp add: invar_def)
qed

text \<open>
  C2. The claim: for every sequence of initial maps given to \<open>New\<close> the result satisfies
  I1 to I4, the last write winning when a key occurs in more than one of the maps. The
  forward map does take the last write (\<open>New_last_write_wins\<close>), and the invariants hold when
  no key occurs twice (\<open>invar_New_disjoint\<close>). But the loop of \<open>New\<close> stores the new value
  without taking the key out of the bucket of the value it overwrites, which \<open>Set\<close> does:
  on \<^verbatim>\<open>New(map{"a": 1}, map{"a": 2})\<close> the key stays in the bucket of 1, so I3 and I4 fail.
\<close>

theorem New_overlapping_keys:
  "New [[(''a'', 1::int)], [(''a'', 2)]] =
     \<lparr>data = [(''a'', 2)], reverseMap = [(1, [(''a'', ())]), (2, [(''a'', ())])]\<rparr> \<and>
   Get 0 (New [[(''a'', 1::int)], [(''a'', 2)]]) ''a'' = (2, True) \<and>
   GetKeys (New [[(''a'', 1::int)], [(''a'', 2)]]) 1 = [''a''] \<and>
   Len (New [[(''a'', 1::int)], [(''a'', 2)]]) = 1 \<and>
   \<not> I3 (New [[(''a'', 1::int)], [(''a'', 2)]]) \<and>
   \<not> I4 (New [[(''a'', 1::int)], [(''a'', 2)]])"
proof -
  have e: "New [[(''a'', 1::int)], [(''a'', 2)]] =
     \<lparr>data = [(''a'', 2)], reverseMap = [(1, [(''a'', ())]), (2, [(''a'', ())])]\<rparr>"
    by (simp add: New_def store_entry_def make_map_def)
  show ?thesis unfolding e by (simp add: Get_def GetKeys_eq Len_def I3_def I4_def)
qed

text \<open>
  C3. The claim: in every state, \<open>GetKeys v\<close> returns exactly the keys that map forward to
  \<open>v\<close>, each once, and the empty list when there is none. \<open>GetKeys\<close> returns the keys of the
  bucket of \<open>v\<close>, so this holds wherever the two indexes agree (\<open>GetKeys_invar\<close>), thus after
  any calls of \<open>Set\<close> and \<open>Remove\<close> on a map made from maps that share no key
  (\<open>GetKeys_after_calls\<close>). It fails on the state that \<open>New\<close> makes from two maps sharing a
  key, where the bucket of the overwritten value keeps the key: after
  \<^verbatim>\<open>New(map{"a": 1}, map{"a": 2})\<close> the key maps forward to 2 and \<open>GetKeys 1\<close> still returns it.
\<close>

theorem GetKeys_stale_after_New:
  "Get 0 (New [[(''a'', 1::int)], [(''a'', 2)]]) ''a'' = (2, True) \<and>
   GetKeys (New [[(''a'', 1::int)], [(''a'', 2)]]) 1 = [''a''] \<and>
   set (GetKeys (New [[(''a'', 1::int)], [(''a'', 2)]]) 1) \<noteq>
     {k. map_of (data (New [[(''a'', 1::int)], [(''a'', 2)]])) k = Some 1}"
proof -
  have e: "New [[(''a'', 1::int)], [(''a'', 2)]] =
     \<lparr>data = [(''a'', 2)], reverseMap = [(1, [(''a'', ())]), (2, [(''a'', ())])]\<rparr>"
    by (simp add: New_def store_entry_def make_map_def)
  have "''a'' \<notin> {k. map_of [(''a'', 2::int)] k = Some 1}" by simp
  then have "{''a''} \<noteq> {k. map_of [(''a'', 2::int)] k = Some 1}" by blast
  then show ?thesis unfolding e by (simp add: Get_def GetKeys_eq)
qed

text \<open>
  C4. In every state, \<open>Get\<close> after \<open>Set k v\<close> returns \<open>(v, True)\<close> for \<open>k\<close>; and for a key that
  is not in the forward map \<open>Get\<close> returns the zero value and \<open>False\<close>.
\<close>

theorem Set_then_Get:
  "Get z (Set k v m) k = (v, True) \<and>
   (k' \<notin> fst ` set (data m) \<longrightarrow> Get z m k' = (z, False))"
proof -
  have "map_of (data (Set k v m)) k = Some v"
    by (simp add: Set_def data_store_entry update_conv' split: option.splits)
  moreover have "map_of (data m) k' = None" if "k' \<notin> fst ` set (data m)"
    using that by (simp add: map_of_eq_None_iff)
  ultimately show ?thesis by (simp add: Get_def)
qed

theorem Set_then_Get_witness:
  "Get 0 (Set ''a'' 5 example_map) ''a'' = (5, True) \<and>
   ''zz'' \<notin> fst ` set (data example_map) \<and> Get 0 example_map ''zz'' = (0, False)"
  using Set_then_Get[of 0 "''a''" 5 example_map "''zz''"]
  by (simp add: example_map_eq)

text \<open>
  C5. \<open>Remove m k\<close> returns true exactly when \<open>k\<close> is a key of the forward map. When it is
  not, the state is returned unchanged. When \<open>k\<close> maps to \<open>v\<close>, the entry of \<open>k\<close> is deleted
  from the forward map and no other entry changes; the keys of the bucket of \<open>v\<close> are the old
  ones without \<open>k\<close>; if none is left the bucket is no longer a key of the reverse map; and no
  other bucket changes.
\<close>

theorem Remove_spec:
  "(fst (Remove m k) \<longleftrightarrow> k \<in> fst ` set (data m)) \<and>
   (k \<notin> fst ` set (data m) \<longrightarrow> Remove m k = (False, m)) \<and>
   (\<forall>v. map_of (data m) k = Some v \<longrightarrow>
      data (snd (Remove m k)) = AList.delete k (data m) \<and>
      k \<notin> fst ` set (data (snd (Remove m k))) \<and>
      (\<forall>k'. k' \<noteq> k \<longrightarrow> map_of (data (snd (Remove m k))) k' = map_of (data m) k') \<and>
      GetKeys (snd (Remove m k)) v = removeAll k (GetKeys m v) \<and>
      (GetKeys (snd (Remove m k)) v = [] \<longrightarrow> v \<notin> fst ` set (reverseMap (snd (Remove m k)))) \<and>
      (\<forall>v'. v' \<noteq> v \<longrightarrow>
         map_of (reverseMap (snd (Remove m k))) v' = map_of (reverseMap m) v'))"
proof (cases "map_of (data m) k")
  case None
  then have "k \<notin> fst ` set (data m)" by (simp add: map_of_eq_None_iff)
  with None show ?thesis by (simp add: Remove_absent)
next
  case (Some v)
  then have "k \<in> fst ` set (data m)" by (metis domI dom_map_of_conv_image_fst)
  moreover have "GetKeys (snd (Remove m k)) v = [] \<longrightarrow>
      v \<notin> fst ` set (reverseMap (snd (Remove m k)))"
    using reverseMap_keys_removeFromReverseMap[of k v "m\<lparr>data := AList.delete k (data m)\<rparr>"]
    by (simp add: Remove_present[OF Some])
  moreover have "\<forall>v'. v' \<noteq> v \<longrightarrow>
      map_of (reverseMap (snd (Remove m k))) v' = map_of (reverseMap m) v'"
    by (simp add: Remove_present[OF Some] rev_removeFromReverseMap split: option.splits)
  ultimately show ?thesis
    using Some
    by (simp add: Remove_present[OF Some] delete_notin_dom GetKeys_removeFromReverseMap)
qed

theorem Remove_spec_witness:
  "map_of (data example_map) ''b'' = Some 2 \<and> ''zz'' \<notin> fst ` set (data example_map) \<and>
   Remove example_map ''zz'' = (False, example_map) \<and>
   fst (Remove example_map ''b'') \<and>
   data (snd (Remove example_map ''b'')) = [(''a'', 1), (''c'', 1)] \<and>
   GetKeys (snd (Remove example_map ''b'')) 2 = [] \<and>
   2 \<notin> fst ` set (reverseMap (snd (Remove example_map ''b'')))"
  using Remove_spec[of example_map "''b''"] Remove_spec[of example_map "''zz''"]
  by (simp add: example_map_eq GetKeys_eq)

text \<open>
  C6. When \<open>k\<close> already maps to \<open>v\<close>, \<open>Set k v\<close> returns the state it was given: \<open>Len\<close>,
  \<open>GetKeys v\<close> and both indexes are as before. So a second \<open>Set k v\<close> in a row changes nothing.
\<close>

theorem Set_same_value_noop:
  "(map_of (data m) k = Some v \<longrightarrow>
      Set k v m = m \<and> Len (Set k v m) = Len m \<and> GetKeys (Set k v m) v = GetKeys m v \<and>
      data (Set k v m) = data m \<and> reverseMap (Set k v m) = reverseMap m) \<and>
   Set k v (Set k v m) = Set k v m"
proof -
  have a: "Set k v m = m" if "map_of (data m) k = Some v" for m
    using that by (simp add: Set_def)
  have "map_of (data (Set k v m)) k = Some v"
    by (simp add: Set_def data_store_entry update_conv' split: option.splits)
  then have "Set k v (Set k v m) = Set k v m" by (rule a)
  then show ?thesis using a by simp
qed

theorem Set_same_value_noop_witness:
  "map_of (data example_map) ''a'' = Some 1 \<and> Set ''a'' 1 example_map = example_map \<and>
   Len (Set ''a'' 1 example_map) = 3 \<and> GetKeys (Set ''a'' 1 example_map) 1 = [''a'', ''c'']"
  using Set_same_value_noop[of example_map "''a''" 1]
  by (simp add: example_map_eq Len_def GetKeys_eq)

text \<open>
  C7, as amended. For two different values \<open>v1\<close> and \<open>v2\<close> and every state, after \<open>Set k v1\<close>
  and then \<open>Set k v2\<close> the key \<open>k\<close> is not in \<open>GetKeys v1\<close> and is in \<open>GetKeys v2\<close>; if the
  bucket of \<open>v1\<close> has no key left, \<open>v1\<close> is no longer a key of the reverse map; \<open>Len\<close> is
  what it was before the two calls if \<open>k\<close> was a key then, and one more otherwise. It is 1 when
  the two calls are made on the empty map.
\<close>

theorem overwrite_moves_key:
  fixes m :: "('k, 'v) Map"
  shows "v1 \<noteq> v2 \<longrightarrow>
     k \<notin> set (GetKeys (Set k v2 (Set k v1 m)) v1) \<and>
     k \<in> set (GetKeys (Set k v2 (Set k v1 m)) v2) \<and>
     (GetKeys (Set k v2 (Set k v1 m)) v1 = [] \<longrightarrow>
        v1 \<notin> fst ` set (reverseMap (Set k v2 (Set k v1 m)))) \<and>
     Len (Set k v2 (Set k v1 m)) = (if k \<in> fst ` set (data m) then Len m else Len m + 1) \<and>
     Len (Set k v2 (Set k v1 (New []))) = 1"
proof
  assume ne: "v1 \<noteq> v2"
  have g: "map_of (data (Set k v1 m)) k = Some v1" for m :: "('k, 'v) Map"
    by (simp add: Set_def data_store_entry update_conv' split: option.splits)
  have in_dom: "k \<in> fst ` set (data (Set k v1 m))" for m :: "('k, 'v) Map"
    using g[of m] by (metis domI dom_map_of_conv_image_fst)
  have "k \<notin> set (GetKeys (Set k v2 (Set k v1 m)) v1)"
    using ne by (simp add: GetKeys_Set[of k v2] g)
  moreover have "k \<in> set (GetKeys (Set k v2 (Set k v1 m)) v2)"
    using ne by (simp add: GetKeys_Set[of k v2] g)
  moreover have "GetKeys (Set k v2 (Set k v1 m)) v1 = [] \<longrightarrow>
        v1 \<notin> fst ` set (reverseMap (Set k v2 (Set k v1 m)))"
    using g ne by (rule overwrite_prunes)
  moreover have "Len (Set k v2 (Set k v1 m)) = (if k \<in> fst ` set (data m) then Len m else Len m + 1)"
    by (simp add: Len_Set[of k v2] in_dom) (simp add: Len_Set)
  moreover have "Len (Set k v2 (Set k v1 (New []))) = 1"
    by (simp add: Len_Set[of k v2] in_dom) (simp add: Len_Set, simp add: New_def make_map_def Len_def)
  ultimately show "k \<notin> set (GetKeys (Set k v2 (Set k v1 m)) v1) \<and>
     k \<in> set (GetKeys (Set k v2 (Set k v1 m)) v2) \<and>
     (GetKeys (Set k v2 (Set k v1 m)) v1 = [] \<longrightarrow>
        v1 \<notin> fst ` set (reverseMap (Set k v2 (Set k v1 m)))) \<and>
     Len (Set k v2 (Set k v1 m)) = (if k \<in> fst ` set (data m) then Len m else Len m + 1) \<and>
     Len (Set k v2 (Set k v1 (New []))) = 1" by blast
qed

theorem overwrite_moves_key_witness:
  "(1::int) \<noteq> 2 \<and>
   ''b'' \<notin> set (GetKeys (Set ''b'' (2::int) (Set ''b'' 1 (New []))) 1) \<and>
   ''b'' \<in> set (GetKeys (Set ''b'' (2::int) (Set ''b'' 1 (New []))) 2) \<and>
   GetKeys (Set ''b'' (2::int) (Set ''b'' 1 (New []))) 1 = [] \<and>
   (1::int) \<notin> fst ` set (reverseMap (Set ''b'' 2 (Set ''b'' 1 (New [])))) \<and>
   Len (Set ''a'' 2 (Set ''a'' 1 example_map)) = 3 \<and>
   Len (Set ''b'' (2::int) (Set ''b'' 1 (New []))) = 1"
  using overwrite_moves_key[of "1::int" 2 "''b''" "New []"]
    overwrite_moves_key[of 1 2 "''a''" example_map]
  by (simp add: example_map_eq Len_def New_def make_map_def Set_def store_entry_def
      removeFromReverseMap_def GetKeys_eq)

text \<open>
  C7 as stated asks \<open>Len\<close> to be 1 after the two calls on every map. On the map that
  already holds the key \<open>b\<close> it is 2.
\<close>

theorem overwrite_counterexample:
  "Len (Set ''a'' 2 (Set ''a'' 1 (Set ''b'' (3::int) (New [])))) \<noteq> 1"
  by (simp add: Len_def Set_def store_entry_def New_def make_map_def removeFromReverseMap_def)

text \<open>
  C9. In every state whose maps are well-formed, \<open>List\<close> and \<open>Values\<close> return (no store is
  out of range) slices of length \<open>Len\<close>: the keys of the forward map, each once, and in the
  same order the value of each of these keys, so equal values are repeated and the multiset
  of the values is that of the forward map.
\<close>

theorem Values_List_snapshot:
  fixes m :: "('k, 'v) Map"
  shows "wf_map m \<longrightarrow>
    (\<exists>ks vs. List zk m = Some ks \<and> Values zv m = Some vs \<and>
       length ks = Len m \<and> length vs = Len m \<and>
       distinct ks \<and> set ks = dom (map_of (data m)) \<and>
       vs = map (\<lambda>k. the (map_of (data m) k)) ks \<and>
       mset vs = image_mset (\<lambda>k. the (map_of (data m) k)) (mset_set (dom (map_of (data m)))))"
proof
  assume "wf_map m"
  then have d: "distinct (map fst (data m))" by (simp add: wf_map_def)
  let ?ks = "map fst (data m)" and ?vs = "map snd (data m)"
  have ks: "set ?ks = dom (map_of (data m))" by (simp add: dom_map_of_conv_image_fst)
  have vs: "?vs = map (\<lambda>k. the (map_of (data m) k)) ?ks" using d by (rule map_snd_lookup)
  have "mset ?ks = mset_set (set ?ks)" using d by (rule mset_set_set[symmetric])
  then have "mset ?vs = image_mset (\<lambda>k. the (map_of (data m) k)) (mset_set (set ?ks))"
    by (subst vs) (simp only: mset_map)
  then have ms: "mset ?vs =
      image_mset (\<lambda>k. the (map_of (data m) k)) (mset_set (dom (map_of (data m))))"
    by (simp only: ks)
  show "\<exists>ks vs. List zk m = Some ks \<and> Values zv m = Some vs \<and>
       length ks = Len m \<and> length vs = Len m \<and>
       distinct ks \<and> set ks = dom (map_of (data m)) \<and>
       vs = map (\<lambda>k. the (map_of (data m) k)) ks \<and>
       mset vs = image_mset (\<lambda>k. the (map_of (data m) k)) (mset_set (dom (map_of (data m))))"
    apply (rule exI[of _ ?ks], rule exI[of _ ?vs])
    using d ks vs ms by (simp add: List_eq Values_eq Len_def)
qed

theorem Values_List_snapshot_witness:
  "wf_map example_map \<and> List [] example_map = Some [''a'', ''b'', ''c''] \<and>
   Values 0 example_map = Some [1, 2, 1] \<and> Len example_map = 3"
  using Values_List_snapshot[of example_map "[]" 0]
  by (simp add: example_map_eq wf_map_def Len_def List_def Values_def make_slice_def
      slice_store_def)

text \<open>
  C10. \<open>Set k v\<close> leaves every other key alone: for \<open>k'\<close> different from \<open>k\<close>, \<open>Get k'\<close> returns
  the same pair before and after, and for every value \<open>v'\<close> the key \<open>k'\<close> is in \<open>GetKeys v'\<close>
  after the call exactly when it was before.
\<close>

theorem Set_frame:
  "k' \<noteq> k \<longrightarrow>
     Get z (Set k v m) k' = Get z m k' \<and>
     (k' \<in> set (GetKeys (Set k v m) v') \<longleftrightarrow> k' \<in> set (GetKeys m v'))"
proof
  assume ne: "k' \<noteq> k"
  have "map_of (data (Set k v m)) k' = map_of (data m) k'"
    using ne by (simp add: Set_def data_store_entry update_conv' split: option.splits)
  then have "Get z (Set k v m) k' = Get z m k'" by (simp add: Get_def)
  moreover have "k' \<in> set (GetKeys (Set k v m) v') \<longleftrightarrow> k' \<in> set (GetKeys m v')"
    using ne by (simp add: GetKeys_Set split: option.splits)
  ultimately show "Get z (Set k v m) k' = Get z m k' \<and>
     (k' \<in> set (GetKeys (Set k v m) v') \<longleftrightarrow> k' \<in> set (GetKeys m v'))" by simp
qed

theorem Set_frame_witness:
  "''c'' \<noteq> ''a'' \<and>
   Get 0 (Set ''a'' 2 example_map) ''c'' = Get 0 example_map ''c'' \<and>
   (''c'' \<in> set (GetKeys (Set ''a'' 2 example_map) 1) \<longleftrightarrow> ''c'' \<in> set (GetKeys example_map 1)) \<and>
   GetKeys (Set ''a'' 2 example_map) 1 = [''c'']"
proof -
  have "GetKeys (Set ''a'' 2 example_map) 1 = [''c'']"
    by (simp add: example_map_eq GetKeys_eq Set_def store_entry_def removeFromReverseMap_def)
  then show ?thesis
    using Set_frame[of "''c''" "''a''" 0 2 example_map 1] by simp
qed

end
